theory Spec2Isabelle
  imports Main
begin

section \<open>The counting semaphore of \<^verbatim>\<open>src/semaphore.ts\<close>\<close>

subsection \<open>Numbers\<close>

text \<open>
  The counter of the semaphore is a \<^verbatim>\<open>number\<close>, an IEEE binary64 value, and the only
  arithmetic on it is \<^verbatim>\<open>++\<close> and \<^verbatim>\<open>--\<close>. On integers these are exact up to
  magnitude \<open>2 ^ 53\<close> and round to the nearest representable value, ties to the even
  significand, beyond it. The model keeps the value of the counter as an \<open>int\<close> and
  rounds after every addition and subtraction.

  \<open>excess m\<close> is the number of low bits that a magnitude \<open>m\<close> has beyond the 53 bits
  of a significand; \<open>nearest m\<close> rounds a magnitude to a multiple of \<open>2 ^ excess m\<close>.
  The exponent range of binary64 is not modelled: adding or subtracting one from a finite
  number never leaves it.
\<close>

function excess :: "int \<Rightarrow> nat" where
  "excess m = (if m < 2 ^ 53 then 0 else Suc (excess (m div 2)))"
  by pat_completeness auto
termination
  by (relation "measure nat") auto

declare excess.simps [simp del]

definition nearest :: "int \<Rightarrow> int" where
  "nearest m =
     (let e = excess m; q = m div 2 ^ e; r = m mod 2 ^ e
      in if 2 * r < 2 ^ e \<or> (2 * r = 2 ^ e \<and> even q) then q * 2 ^ e
         else (q + 1) * 2 ^ e)"

definition binary64 :: "int \<Rightarrow> int" where
  "binary64 x = (if x < 0 then - nearest (- x) else nearest x)"

text \<open>\<^verbatim>\<open>x++\<close> and \<^verbatim>\<open>x--\<close> store the rounded sum and difference.\<close>

definition increment :: "int \<Rightarrow> int" where
  "increment x = binary64 (x + 1)"

definition decrement :: "int \<Rightarrow> int" where
  "decrement x = binary64 (x - 1)"

subsection \<open>Data model\<close>

text \<open>
  The class \<^verbatim>\<open>Semaphore\<close> has two fields, \<^verbatim>\<open>capacityLeft: number\<close> and
  \<^verbatim>\<open>queue: Array<any>\<close>. The capacity is an integer, so the counter is integer-valued
  in every state. The queue holds the \<^verbatim>\<open>resolve\<close> functions of the promises handed
  out by \<^verbatim>\<open>down\<close>; their type is left as the parameter \<open>'r\<close>, and the head of the list
  is the front of the array.
\<close>

record 'r semaphore =
  capacityLeft :: int
  queue :: "'r list"

text \<open>
  \<^verbatim>\<open>
  constructor(capacity: number) {
      this.capacityLeft = capacity;
      this.queue = [];
  }
  \<close>
\<close>

definition create :: "int \<Rightarrow> 'r semaphore" where
  "create capacity = \<lparr>capacityLeft = capacity, queue = []\<rparr>"

subsection \<open>Operations\<close>

text \<open>
  \<^verbatim>\<open>
  down() {
      if (this.capacityLeft > 0) {
          this.capacityLeft--;
          return;
      }
      return new Promise<void>((resolve) => {
          this.queue.push(resolve)
      });
  }
  \<close>
  The call either returns \<^verbatim>\<open>undefined\<close> at once (\<open>Returned\<close>), or returns a promise
  that is still pending (\<open>Pending\<close>) and whose resolver has been pushed on the queue; the
  executor of a promise runs synchronously inside \<^verbatim>\<open>new Promise\<close>. The resolver of the
  promise that a call would create is the first argument of the model.
\<close>

datatype 'r down_result = Returned | Pending 'r

definition down :: "'r \<Rightarrow> 'r semaphore \<Rightarrow> 'r down_result \<times> 'r semaphore" where
  "down resolve s =
     (if capacityLeft s > 0 then (Returned, s\<lparr>capacityLeft := decrement (capacityLeft s)\<rparr>)
      else (Pending resolve, s\<lparr>queue := queue s @ [resolve]\<rparr>))"

text \<open>
  \<^verbatim>\<open>
  up() {
      if (this.queue.length === 0) {
          this.capacityLeft++;
          return;
      }
      const next = this.queue.shift();
      next();
  }
  \<close>
  The call returns nothing; what can be observed is which resolver it has invoked, if any.
  That is the first component of the result: \<open>None\<close> in the branch that increments the
  counter (the array has length 0), \<open>Some next\<close> in the branch that shifts the queue.
  Invoking a resolver settles the promise and schedules its reactions; it does not run
  them, so no call of the semaphore happens inside \<^verbatim>\<open>up\<close>.
\<close>

definition up :: "'r semaphore \<Rightarrow> 'r option \<times> 'r semaphore" where
  "up s =
     (case queue s of
        [] \<Rightarrow> (None, s\<lparr>capacityLeft := increment (capacityLeft s)\<rparr>)
      | next # rest \<Rightarrow> (Some next, s\<lparr>queue := rest\<rparr>))"

subsection \<open>Sequences of calls\<close>

text \<open>
  A caller issues calls one after the other; under the cooperative scheduling of the host
  each call runs to its end before the next one starts. A sequence of calls is a list of
  operations, and running it collects what each call returned or invoked.
\<close>

datatype 'r op = Down 'r | Up

datatype 'r outcome = DownOut "'r down_result" | UpOut "'r option"

fun step :: "'r op \<Rightarrow> 'r semaphore \<Rightarrow> 'r outcome \<times> 'r semaphore" where
  "step (Down resolve) s = (case down resolve s of (res, s') \<Rightarrow> (DownOut res, s'))"
| "step Up s = (case up s of (nxt, s') \<Rightarrow> (UpOut nxt, s'))"

fun exec :: "'r op list \<Rightarrow> 'r semaphore \<Rightarrow> 'r outcome list \<times> 'r semaphore" where
  "exec [] s = ([], s)"
| "exec (x # xs) s =
     (case step x s of (out, s') \<Rightarrow>
        (case exec xs s' of (outs, s'') \<Rightarrow> (out # outs, s'')))"

text \<open>The resolvers invoked during a run, in the order of their invocation.\<close>

fun resumed :: "'r outcome list \<Rightarrow> 'r list" where
  "resumed [] = []"
| "resumed (UpOut (Some r) # outs) = r # resumed outs"
| "resumed (_ # outs) = resumed outs"

text \<open>The number of \<^verbatim>\<open>down\<close> calls and of \<^verbatim>\<open>up\<close> calls of a sequence.\<close>

fun downs :: "'r op list \<Rightarrow> nat" where
  "downs [] = 0"
| "downs (Down _ # xs) = Suc (downs xs)"
| "downs (Up # xs) = downs xs"

fun ups :: "'r op list \<Rightarrow> nat" where
  "ups [] = 0"
| "ups (Up # xs) = Suc (ups xs)"
| "ups (Down _ # xs) = ups xs"

text \<open>Free units minus waiting tasks.\<close>

definition balance :: "'r semaphore \<Rightarrow> int" where
  "balance s = capacityLeft s - int (length (queue s))"

text \<open>No task waits while a unit is free.\<close>

definition waiting_ok :: "'r semaphore \<Rightarrow> bool" where
  "waiting_ok s = (queue s = [] \<or> capacityLeft s \<le> 0)"

section \<open>Arithmetic of the counter\<close>

lemma excess_small: "m < 2 ^ 53 \<Longrightarrow> excess m = 0"
  by (simp add: excess.simps)

lemma excess_next: "2 ^ 53 \<le> m \<Longrightarrow> m < 2 ^ 54 \<Longrightarrow> excess m = 1"
  by (subst excess.simps) (simp add: excess_small)

lemma nearest_small: "m < 2 ^ 53 \<Longrightarrow> nearest m = m"
  by (simp add: nearest_def excess_small)

lemma nearest_limit: "nearest (2 ^ 53) = 2 ^ 53"
  by (simp add: nearest_def excess_next)

lemma nearest_exact: "m \<le> 2 ^ 53 \<Longrightarrow> nearest m = m"
  using nearest_small [of m] nearest_limit by (cases "m = 2 ^ 53") simp_all

lemma nearest_nonneg: "0 \<le> m \<Longrightarrow> 0 \<le> nearest m"
  by (simp add: nearest_def Let_def pos_imp_zdiv_nonneg_iff)

text \<open>Every integer of magnitude at most \<open>2 ^ 53\<close> is a binary64 number.\<close>

lemma binary64_exact: "\<bar>x\<bar> \<le> 2 ^ 53 \<Longrightarrow> binary64 x = x"
  by (simp add: binary64_def nearest_exact)

lemma binary64_nonneg: "0 \<le> x \<Longrightarrow> 0 \<le> binary64 x"
  by (simp add: binary64_def nearest_nonneg)

text \<open>The first integer beyond the range is a tie and rounds back to \<open>2 ^ 53\<close>.\<close>

lemma nearest_tie: "nearest (2 ^ 53 + 1) = 2 ^ 53"
  by (simp add: nearest_def excess_next)

lemma increment_exact: "- (2 ^ 53) \<le> x \<Longrightarrow> x < 2 ^ 53 \<Longrightarrow> increment x = x + 1"
  by (simp add: increment_def binary64_exact)

lemma decrement_exact: "- (2 ^ 53) < x \<Longrightarrow> x \<le> 2 ^ 53 \<Longrightarrow> decrement x = x - 1"
  by (simp add: decrement_def binary64_exact)

lemma increment_limit: "increment (2 ^ 53) = 2 ^ 53"
  using nearest_tie by (simp add: increment_def binary64_def)

lemma decrement_beyond: "decrement (2 ^ 53 + 2) = 2 ^ 53"
  using nearest_tie by (simp add: decrement_def binary64_def)

lemma increment_nonneg: "0 \<le> x \<Longrightarrow> 0 \<le> increment x"
  by (simp add: increment_def binary64_nonneg)

lemma decrement_nonneg: "0 < x \<Longrightarrow> 0 \<le> decrement x"
  by (simp add: decrement_def binary64_nonneg)

text \<open>Repeated increments count up to \<open>2 ^ 53\<close> and stay there.\<close>

lemma increments:
  "- (2 ^ 53) \<le> c \<Longrightarrow> c \<le> 2 ^ 53 \<Longrightarrow> (increment ^^ k) c = min (c + int k) (2 ^ 53)"
proof (induction k)
  case 0
  then show ?case by simp
next
  case (Suc k)
  show ?case
  proof (cases "c + int k < 2 ^ 53")
    case True
    with Suc show ?thesis by (simp add: increment_exact)
  next
    case False
    with Suc increment_limit show ?thesis by simp
  qed
qed

section \<open>Single calls\<close>

lemma down_available:
  "0 < capacityLeft s \<Longrightarrow>
   down r s = (Returned, s\<lparr>capacityLeft := decrement (capacityLeft s)\<rparr>)"
  by (simp add: down_def)

lemma down_exhausted:
  "capacityLeft s \<le> 0 \<Longrightarrow> down r s = (Pending r, s\<lparr>queue := queue s @ [r]\<rparr>)"
  by (simp add: down_def)

lemma up_idle:
  "queue s = [] \<Longrightarrow> up s = (None, s\<lparr>capacityLeft := increment (capacityLeft s)\<rparr>)"
  by (simp add: up_def)

lemma up_handoff:
  "queue s = r # rest \<Longrightarrow> up s = (Some r, s\<lparr>queue := rest\<rparr>)"
  by (simp add: up_def)

section \<open>Sequences of calls\<close>

lemma snd_exec_Cons: "snd (exec (x # xs) s) = snd (exec xs (snd (step x s)))"
  by (simp split: prod.splits)

lemma fst_exec_Cons: "fst (exec (x # xs) s) = fst (step x s) # fst (exec xs (snd (step x s)))"
  by (simp split: prod.splits)

lemma snd_exec_append: "snd (exec (xs @ ys) s) = snd (exec ys (snd (exec xs s)))"
proof (induction xs arbitrary: s)
  case Nil
  then show ?case by simp
next
  case (Cons x xs)
  then show ?case by (simp only: append_Cons snd_exec_Cons)
qed

subsection \<open>Runs of \<^verbatim>\<open>up\<close> calls\<close>

text \<open>
  \<open>k\<close> successive \<^verbatim>\<open>up\<close> calls first drain the queue from the front, one waiter per
  call, and only then start counting.
\<close>

lemma exec_ups:
  "exec (replicate k Up) s =
     (map (\<lambda>r. UpOut (Some r)) (take k (queue s)) @ replicate (k - length (queue s)) (UpOut None),
      s\<lparr>capacityLeft := (increment ^^ (k - length (queue s))) (capacityLeft s),
        queue := drop k (queue s)\<rparr>)"
proof (induction k arbitrary: s)
  case 0
  then show ?case by simp
next
  case (Suc k)
  show ?case
  proof (cases "queue s")
    case Nil
    then show ?thesis by (simp add: Suc.IH up_idle funpow_swap1)
  next
    case (Cons r rest)
    then show ?thesis by (simp add: Suc.IH up_handoff)
  qed
qed

lemma resumed_idle: "resumed (replicate n (UpOut None)) = []"
  by (induction n) simp_all

lemma resumed_handoffs:
  "resumed (map (\<lambda>r. UpOut (Some r)) rs @ replicate n (UpOut None)) = rs"
  by (induction rs) (simp_all add: resumed_idle)

subsection \<open>Runs of \<^verbatim>\<open>down\<close> calls\<close>

lemma exec_downs_exhausted:
  "capacityLeft s \<le> 0 \<Longrightarrow>
   exec (map Down rs) s = (map (\<lambda>r. DownOut (Pending r)) rs, s\<lparr>queue := queue s @ rs\<rparr>)"
  by (induction rs arbitrary: s) (auto simp: down_exhausted)

lemma exec_downs_available:
  "int (length rs) \<le> capacityLeft s \<Longrightarrow> capacityLeft s \<le> 2 ^ 53 \<Longrightarrow>
   exec (map Down rs) s =
     (replicate (length rs) (DownOut Returned),
      s\<lparr>capacityLeft := capacityLeft s - int (length rs)\<rparr>)"
  by (induction rs arbitrary: s) (auto simp: down_available decrement_exact)

subsection \<open>Invariants of arbitrary runs\<close>

lemma calls_length: "downs xs + ups xs = length xs"
  by (induction xs rule: downs.induct) simp_all

lemma step_balance:
  "\<bar>capacityLeft s\<bar> < 2 ^ 53 \<Longrightarrow>
   balance (snd (step x s)) = balance s - (case x of Down _ \<Rightarrow> 1 | Up \<Rightarrow> - 1)"
  by (cases x)
    (auto simp: balance_def down_def up_def increment_exact decrement_exact split: list.splits)

lemma step_bound:
  "\<bar>capacityLeft s\<bar> < 2 ^ 53 \<Longrightarrow> \<bar>capacityLeft (snd (step x s))\<bar> \<le> \<bar>capacityLeft s\<bar> + 1"
  by (cases x)
    (auto simp: down_def up_def increment_exact decrement_exact split: list.splits)

lemma exec_balance:
  "\<bar>capacityLeft s\<bar> + int (length xs) \<le> 2 ^ 53 \<Longrightarrow>
   balance (snd (exec xs s)) = balance s - int (downs xs) + int (ups xs)"
proof (induction xs arbitrary: s)
  case Nil
  then show ?case by simp
next
  case (Cons x xs)
  from Cons.prems have small: "\<bar>capacityLeft s\<bar> < 2 ^ 53" by simp
  from step_bound [OF small, of x] Cons.prems
  have "\<bar>capacityLeft (snd (step x s))\<bar> + int (length xs) \<le> 2 ^ 53" by simp
  then have "balance (snd (exec (x # xs) s)) =
          balance (snd (step x s)) - int (downs xs) + int (ups xs)"
    by (simp only: snd_exec_Cons Cons.IH)
  then show ?case
    by (cases x) (simp_all add: step_balance [OF small] del: step.simps)
qed

lemma step_waiting_ok: "waiting_ok s \<Longrightarrow> waiting_ok (snd (step x s))"
  by (cases x) (auto simp: waiting_ok_def down_def up_def split: list.splits)

lemma exec_waiting_ok: "waiting_ok s \<Longrightarrow> waiting_ok (snd (exec xs s))"
proof (induction xs arbitrary: s)
  case Nil
  then show ?case by simp
next
  case (Cons x xs)
  from Cons.prems have "waiting_ok (snd (step x s))" by (rule step_waiting_ok)
  then have "waiting_ok (snd (exec xs (snd (step x s))))" by (rule Cons.IH)
  then show ?case by (simp only: snd_exec_Cons)
qed

text \<open>Neither operation takes the counter below zero once it is not negative.\<close>

lemma step_nonneg: "0 \<le> capacityLeft s \<Longrightarrow> 0 \<le> capacityLeft (snd (step x s))"
  by (cases x)
    (auto simp: down_def up_def increment_nonneg decrement_nonneg split: list.splits)

lemma exec_nonneg: "0 \<le> capacityLeft s \<Longrightarrow> 0 \<le> capacityLeft (snd (exec xs s))"
proof (induction xs arbitrary: s)
  case Nil
  then show ?case by simp
next
  case (Cons x xs)
  from Cons.prems have "0 \<le> capacityLeft (snd (step x s))" by (rule step_nonneg)
  then have "0 \<le> capacityLeft (snd (exec xs (snd (step x s))))" by (rule Cons.IH)
  then show ?case by (simp only: snd_exec_Cons)
qed

section \<open>The two operations\<close>







section \<open>Reachable states\<close>

text \<open>
  C3, as stated: in every state reached from a constructed semaphore by \<^verbatim>\<open>down\<close> and
  \<^verbatim>\<open>up\<close> calls, a non-empty queue implies \<open>capacityLeft = 0\<close>, also for a semaphore
  constructed with a negative capacity. This fails: one \<^verbatim>\<open>down\<close> on
  \<^verbatim>\<open>new Semaphore(-1)\<close> queues the caller and leaves the counter at \<open>-1\<close>.
\<close>

theorem waiting_implies_zero_counterexample:
  "\<not> (queue (snd (exec [Down (0::nat)] (create (- 1)))) \<noteq> []
        \<longrightarrow> capacityLeft (snd (exec [Down (0::nat)] (create (- 1)))) = 0)"
  by (simp add: create_def down_def)

text \<open>
  C3, amended: in every state reached from a semaphore constructed with capacity \<open>C\<close> by
  any sequence of \<^verbatim>\<open>down\<close> and \<^verbatim>\<open>up\<close> calls, a non-empty queue implies
  \<open>capacityLeft \<le> 0\<close>, and implies \<open>capacityLeft = 0\<close> whenever \<open>C \<ge> 0\<close>.
\<close>

theorem waiting_implies_exhausted:
  "queue (snd (exec ops (create C))) \<noteq> [] \<Longrightarrow>
   capacityLeft (snd (exec ops (create C))) \<le> 0
   \<and> (0 \<le> C \<longrightarrow> capacityLeft (snd (exec ops (create C))) = 0)"
proof -
  assume waiting: "queue (snd (exec ops (create C))) \<noteq> []"
  have "waiting_ok (create C :: 'a semaphore)"
    by (simp add: waiting_ok_def create_def)
  then have "waiting_ok (snd (exec ops (create C)))"
    by (rule exec_waiting_ok)
  with waiting have le: "capacityLeft (snd (exec ops (create C))) \<le> 0"
    by (simp add: waiting_ok_def)
  have "0 \<le> capacityLeft (snd (exec ops (create C)))" if "0 \<le> C"
    using that exec_nonneg [of "create C" ops] by (simp add: create_def)
  with le show ?thesis by auto
qed

theorem waiting_implies_exhausted_witness:
  "queue (snd (exec [Down (1::nat), Down 2, Down 3] (create 1))) \<noteq> []
   \<and> (0::int) \<le> 1
   \<and> capacityLeft (snd (exec [Down (1::nat), Down 2, Down 3] (create 1))) = 0"
proof -
  have w: "queue (snd (exec [Down (1::nat), Down 2, Down 3] (create 1))) \<noteq> []"
    by (simp add: create_def down_def decrement_exact)
  show ?thesis
    using w waiting_implies_exhausted [OF w] by simp
qed

section \<open>Order of wake-ups\<close>

text \<open>
  C4. \<^verbatim>\<open>down\<close> calls that find no free unit are queued in the order of the calls. On a
  semaphore with \<open>N\<close> queued tasks each \<^verbatim>\<open>up\<close> call invokes exactly the front
  continuation and removes it; \<open>k\<close> successive calls invoke the first \<open>k\<close> queued
  continuations in queue order and leave the others queued, so all \<open>N\<close> have been invoked
  exactly when \<open>k \<ge> N\<close>.
\<close>

theorem up_fifo:
  "(capacityLeft s \<le> 0 \<longrightarrow> queue (snd (exec (map Down rs) s)) = queue s @ rs)
   \<and> (queue s \<noteq> [] \<longrightarrow>
        fst (up s) = Some (hd (queue s)) \<and> queue (snd (up s)) = tl (queue s))
   \<and> resumed (fst (exec (replicate k Up) s)) = take k (queue s)
   \<and> queue (snd (exec (replicate k Up) s)) = drop k (queue s)
   \<and> (resumed (fst (exec (replicate k Up) s)) = queue s \<longleftrightarrow> length (queue s) \<le> k)"
  by (simp add: exec_downs_exhausted exec_ups resumed_handoffs up_def split: list.split)

theorem up_fifo_witness:
  "capacityLeft (snd (exec [Down (0::nat)] (create 1))) \<le> 0
   \<and> queue (snd (exec (map Down [1, 2, 3]) (snd (exec [Down (0::nat)] (create 1))))) = [1, 2, 3]
   \<and> queue \<lparr>capacityLeft = 0, queue = [1::nat, 2, 3]\<rparr> \<noteq> []
   \<and> fst (up \<lparr>capacityLeft = 0, queue = [1::nat, 2, 3]\<rparr>) = Some 1
   \<and> queue (snd (up \<lparr>capacityLeft = 0, queue = [1::nat, 2, 3]\<rparr>)) = [2, 3]
   \<and> resumed (fst (exec (replicate 2 Up) \<lparr>capacityLeft = 0, queue = [1::nat, 2, 3]\<rparr>)) = [1, 2]
   \<and> queue (snd (exec (replicate 2 Up) \<lparr>capacityLeft = 0, queue = [1::nat, 2, 3]\<rparr>)) = [3]
   \<and> resumed (fst (exec (replicate 3 Up) \<lparr>capacityLeft = 0, queue = [1::nat, 2, 3]\<rparr>)) = [1, 2, 3]
   \<and> queue (snd (exec (replicate 3 Up) \<lparr>capacityLeft = 0, queue = [1::nat, 2, 3]\<rparr>)) = []"
  using up_fifo [of "snd (exec [Down (0::nat)] (create 1))" "[1, 2, 3]" 0]
    up_fifo [of "\<lparr>capacityLeft = 0, queue = [1::nat, 2, 3]\<rparr>" "[]" 2]
    up_fifo [of "\<lparr>capacityLeft = 0, queue = [1::nat, 2, 3]\<rparr>" "[]" 3]
  by (simp add: create_def down_def decrement_exact)

section \<open>Releases without waiters\<close>

text \<open>
  C5, as stated: on every semaphore with an empty queue, \<open>N\<close> successive \<^verbatim>\<open>up\<close> calls
  raise \<open>capacityLeft\<close> by exactly \<open>N\<close>. This fails at the end of the range of exact
  integers: from \<open>capacityLeft = 2 ^ 53 - 1\<close> three calls raise the counter by one, to
  \<open>2 ^ 53\<close>, where it stays.
\<close>

theorem over_release_counterexample:
  "\<not> (queue \<lparr>capacityLeft = 2 ^ 53 - 1, queue = ([]::nat list)\<rparr> = []
        \<longrightarrow> capacityLeft
              (snd (exec [Up, Up, Up] \<lparr>capacityLeft = 2 ^ 53 - 1, queue = ([]::nat list)\<rparr>))
              = capacityLeft \<lparr>capacityLeft = 2 ^ 53 - 1, queue = ([]::nat list)\<rparr> + 3)"
  using increment_limit increment_exact [of "2 ^ 53 - 1"] by (simp add: up_def)

text \<open>
  C5, amended: on a semaphore with an empty queue, \<open>n\<close> successive \<^verbatim>\<open>up\<close> calls, for any
  \<open>n \<ge> 0\<close>, all take the counting branch (none invokes a continuation, none fails: the
  source has no \<^verbatim>\<open>throw\<close> and the model no error value) and leave the queue empty; when
  \<open>-(2 ^ 53) \<le> capacityLeft\<close> and \<open>capacityLeft + n \<le> 2 ^ 53\<close> they raise
  \<open>capacityLeft\<close> by exactly \<open>n\<close>, whatever capacity the semaphore was constructed with.
\<close>

theorem over_release:
  "queue s = [] \<Longrightarrow>
   fst (exec (replicate n Up) s) = replicate n (UpOut None)
   \<and> queue (snd (exec (replicate n Up) s)) = []
   \<and> (- (2 ^ 53) \<le> capacityLeft s \<and> capacityLeft s + int n \<le> 2 ^ 53
        \<longrightarrow> capacityLeft (snd (exec (replicate n Up) s)) = capacityLeft s + int n)"
  by (simp add: exec_ups increments)

theorem over_release_witness:
  "queue (snd (exec [Down (0::nat)] (create 2))) = []
   \<and> - (2 ^ 53) \<le> capacityLeft (snd (exec [Down (0::nat)] (create 2)))
   \<and> capacityLeft (snd (exec [Down (0::nat)] (create 2))) + int 3 \<le> 2 ^ 53
   \<and> fst (exec (replicate 3 Up) (snd (exec [Down (0::nat)] (create 2))))
       = [UpOut None, UpOut None, UpOut None]
   \<and> capacityLeft (snd (exec (replicate 3 Up) (snd (exec [Down (0::nat)] (create 2))))) = 4
   \<and> queue (snd (exec (replicate 3 Up) (snd (exec [Down (0::nat)] (create 2))))) = []"
proof -
  have q: "queue (snd (exec [Down (0::nat)] (create 2))) = []"
    by (simp add: create_def down_def)
  have c: "capacityLeft (snd (exec [Down (0::nat)] (create 2))) = 1"
    by (simp add: create_def down_def decrement_exact)
  show ?thesis
    using q c over_release [OF q, of 3] by (simp add: numeral_3_eq_3)
qed

section \<open>Negative initial capacity\<close>

text \<open>
  C6, as stated: a semaphore constructed with capacity \<open>-n\<close>, \<open>n > 0\<close>, needs exactly
  \<open>n\<close> \<^verbatim>\<open>up\<close> calls before a \<^verbatim>\<open>down\<close> returns at once. This fails: after one
  \<^verbatim>\<open>up\<close> on \<^verbatim>\<open>new Semaphore(-1)\<close> the counter is \<open>0\<close>, the test
  \<^verbatim>\<open>capacityLeft > 0\<close> is false and the \<^verbatim>\<open>down\<close> call is queued.
\<close>

theorem negative_capacity_counterexample:
  "capacityLeft (snd (exec [Up] (create (- 1) :: nat semaphore))) = 0
   \<and> fst (down (0::nat) (snd (exec [Up] (create (- 1))))) \<noteq> Returned"
  by (simp add: create_def down_def up_def increment_exact)

text \<open>
  C6, amended: for every \<open>n\<close> with \<open>0 < n \<le> 2 ^ 53\<close>, construction with capacity
  \<open>-n\<close> is accepted as it is (\<open>capacityLeft = -n\<close>, empty queue), and after \<open>k\<close>
  \<^verbatim>\<open>up\<close> calls with no waiter a \<^verbatim>\<open>down\<close> call returns at once if and only if
  \<open>k \<ge> n + 1\<close>: exactly \<open>n + 1\<close> releases are required. (Below \<open>-(2 ^ 53)\<close> an
  increment is not exact, see \<open>increments\<close> for the range in which it is.)
\<close>

theorem negative_capacity_releases:
  "0 < n \<Longrightarrow> int n \<le> 2 ^ 53 \<Longrightarrow>
   capacityLeft (create (- int n) :: 'r semaphore) = - int n
   \<and> queue (create (- int n) :: 'r semaphore) = []
   \<and> (fst (down (r::'r) (snd (exec (replicate k Up) (create (- int n))))) = Returned
        \<longleftrightarrow> n + 1 \<le> k)"
proof -
  assume n: "0 < n" "int n \<le> 2 ^ 53"
  then have "(increment ^^ k) (- int n) = min (int k - int n) (2 ^ 53)"
    using increments [of "- int n" k] by simp
  then have "capacityLeft (snd (exec (replicate k Up) (create (- int n) :: 'r semaphore)))
      = min (int k - int n) (2 ^ 53)"
    by (simp add: exec_ups create_def)
  then show ?thesis
    by (auto simp: create_def down_def)
qed

theorem negative_capacity_releases_witness:
  "(0::nat) < 2 \<and> int 2 \<le> 2 ^ 53
   \<and> capacityLeft (create (- 2) :: nat semaphore) = - 2
   \<and> queue (create (- 2) :: nat semaphore) = []
   \<and> fst (down (0::nat) (snd (exec (replicate 2 Up) (create (- 2))))) \<noteq> Returned
   \<and> fst (down (0::nat) (snd (exec (replicate 3 Up) (create (- 2))))) = Returned"
  using negative_capacity_releases [of 2 "0::nat" 2]
    negative_capacity_releases [of 2 "0::nat" 3]
  by simp

section \<open>Acquisitions within the capacity\<close>

text \<open>
  A run of \<^verbatim>\<open>down\<close> calls from \<open>capacityLeft = 2 ^ 53 + 2\<close>: the first call takes the
  counter to \<open>2 ^ 53\<close>, the next \<open>2 ^ 53\<close> calls take it to \<open>0\<close>, and one more call is
  queued.
\<close>

lemma exec_downs_overshoot:
  assumes "capacityLeft s = 2 ^ 53 + 2" and "queue s = []" and "int (length rs) = 2 ^ 53"
  shows "queue (snd (exec (map Down (a # rs @ [b])) s)) = [b]"
proof -
  let ?s1 = "s\<lparr>capacityLeft := 2 ^ 53\<rparr>"
  let ?s2 = "s\<lparr>capacityLeft := 0\<rparr>"
  have first: "snd (step (Down a) s) = ?s1"
    using assms(1) decrement_beyond by (simp add: down_def)
  have "exec (map Down rs) ?s1 =
      (replicate (length rs) (DownOut Returned),
       ?s1\<lparr>capacityLeft := capacityLeft ?s1 - int (length rs)\<rparr>)"
    by (rule exec_downs_available) (simp_all add: assms(3))
  then have middle: "snd (exec (map Down rs) ?s1) = ?s2"
    by (simp add: assms(3))
  have "snd (exec (map Down (a # rs @ [b])) s) = snd (exec [Down b] ?s2)"
    by (simp only: list.map map_append snd_exec_Cons snd_exec_append first middle)
  then show ?thesis
    by (simp add: down_def assms(2))
qed

text \<open>
  C7, as stated: for every initial capacity \<open>C \<ge> 1\<close>, \<open>C\<close> successive \<^verbatim>\<open>down\<close> calls
  on a fresh semaphore all return at once and none is queued. This fails at
  \<open>C = 2 ^ 53 + 2\<close>: the first decrement lowers the counter by two, so the last of the
  \<open>C\<close> calls finds it at \<open>0\<close> and is queued.
\<close>

theorem immediate_acquisitions_counterexample:
  "(1::int) \<le> 2 ^ 53 + 2
   \<and> int (length (0 # replicate (2 ^ 53) 0 @ [0::nat])) = 2 ^ 53 + 2
   \<and> queue (snd (exec (map Down (0 # replicate (2 ^ 53) 0 @ [0::nat])) (create (2 ^ 53 + 2))))
       \<noteq> []"
  using exec_downs_overshoot [of "create (2 ^ 53 + 2)" "replicate (2 ^ 53) (0::nat)" 0 0]
  by (simp add: create_def)

text \<open>
  C7, amended: for every initial capacity \<open>C\<close> with \<open>1 \<le> C \<le> 2 ^ 53\<close>, \<open>C\<close>
  successive \<^verbatim>\<open>down\<close> calls on a fresh semaphore all return at once, and the queue is
  empty after each of them (after every prefix of the calls); the counter ends at \<open>0\<close>.
\<close>

theorem immediate_acquisitions:
  "1 \<le> C \<Longrightarrow> C \<le> 2 ^ 53 \<Longrightarrow> length rs = nat C \<Longrightarrow>
   fst (exec (map Down rs) (create C)) = replicate (nat C) (DownOut Returned)
   \<and> (\<forall>k \<le> nat C. queue (snd (exec (map Down (take k rs)) (create C))) = [])
   \<and> capacityLeft (snd (exec (map Down rs) (create C))) = 0"
proof -
  assume C: "1 \<le> C" and bound: "C \<le> 2 ^ 53" and len: "length rs = nat C"
  have avail: "int (length (take k rs)) \<le> capacityLeft (create C :: 'a semaphore)" for k
    using C len by (simp add: create_def)
  have range: "capacityLeft (create C :: 'a semaphore) \<le> 2 ^ 53"
    using bound by (simp add: create_def)
  have "queue (snd (exec (map Down (take k rs)) (create C))) = []" for k
    by (simp add: exec_downs_available [OF avail range]) (simp add: create_def)
  moreover have "exec (map Down rs) (create C) =
      (replicate (nat C) (DownOut Returned), (create C)\<lparr>capacityLeft := 0\<rparr>)"
    using exec_downs_available [OF avail [of "length rs"] range] C len
    by (simp add: create_def)
  ultimately show ?thesis by simp
qed

theorem immediate_acquisitions_witness:
  "(1::int) \<le> 2 \<and> (2::int) \<le> 2 ^ 53 \<and> length [5::nat, 6] = nat 2
   \<and> fst (exec (map Down [5::nat, 6]) (create 2)) = [DownOut Returned, DownOut Returned]
   \<and> queue (snd (exec (map Down (take 0 [5::nat, 6])) (create 2))) = []
   \<and> queue (snd (exec (map Down (take 1 [5::nat, 6])) (create 2))) = []
   \<and> queue (snd (exec (map Down (take 2 [5::nat, 6])) (create 2))) = []
   \<and> capacityLeft (snd (exec (map Down [5::nat, 6]) (create 2))) = 0"
  using immediate_acquisitions [of 2 "[5::nat, 6]"]
  by (simp add: create_def down_def decrement_exact)

section \<open>Construction and rapid cycling\<close>

text \<open>
  C8. For every integer \<open>c\<close>, positive, zero or negative, \<open>create c\<close> is a semaphore
  with \<open>capacityLeft = c\<close> and an empty queue (the constructor has no check and no failing
  branch). On a semaphore of capacity 1 the calls down, up, down, up, down all return at
  once, no continuation is queued or invoked, and the final state has
  \<open>capacityLeft = 0\<close> and an empty queue.
\<close>

theorem create_and_rapid_cycle:
  "capacityLeft (create c :: 'r semaphore) = c
   \<and> queue (create c :: 'r semaphore) = []
   \<and> exec [Down (a::'r), Up, Down b, Up, Down d] (create 1)
       = ([DownOut Returned, UpOut None, DownOut Returned, UpOut None, DownOut Returned],
          \<lparr>capacityLeft = 0, queue = []\<rparr>)"
  by (simp add: create_def down_def up_def increment_exact decrement_exact)

section \<open>Conservation\<close>

text \<open>
  C9, as stated: every \<^verbatim>\<open>down\<close> call lowers \<open>capacityLeft - length queue\<close> by exactly
  one. This fails beyond the range of exact integers: at \<open>capacityLeft = 2 ^ 53 + 2\<close> a
  \<^verbatim>\<open>down\<close> call lowers it by two.
\<close>

theorem conservation_counterexample:
  "balance (snd (down (0::nat) \<lparr>capacityLeft = 2 ^ 53 + 2, queue = []\<rparr>))
     \<noteq> balance \<lparr>capacityLeft = 2 ^ 53 + 2, queue = ([]::nat list)\<rparr> - 1"
  using decrement_beyond by (simp add: down_def balance_def)

text \<open>
  C9, amended: a \<^verbatim>\<open>down\<close> call on a semaphore with \<open>capacityLeft \<le> 2 ^ 53\<close> lowers
  \<open>capacityLeft - length queue\<close> by exactly one, and an \<^verbatim>\<open>up\<close> call on a semaphore
  with a waiter, or with \<open>-(2 ^ 53) \<le> capacityLeft < 2 ^ 53\<close>, raises it by exactly
  one; under these conditions each call changes exactly one of the two fields, by one
  unit (the counter by one, or the queue by one element at its end for \<^verbatim>\<open>down\<close> and at
  its front for \<^verbatim>\<open>up\<close>). Hence after any sequence of calls with \<open>a\<close> \<^verbatim>\<open>down\<close>
  calls and \<open>b\<close> \<^verbatim>\<open>up\<close> calls on a semaphore of capacity \<open>C\<close>, where
  \<open>\<bar>C\<bar> + a + b \<le> 2 ^ 53\<close>, the quantity equals \<open>C - a + b\<close>.
\<close>

theorem conservation:
  "(capacityLeft s \<le> 2 ^ 53 \<longrightarrow>
      balance (snd (down (r::'r) s)) = balance s - 1
      \<and> (capacityLeft (snd (down r s)) = capacityLeft s - 1
            \<and> queue (snd (down r s)) = queue s
          \<or> capacityLeft (snd (down r s)) = capacityLeft s
            \<and> queue (snd (down r s)) = queue s @ [r]))
   \<and> (queue s \<noteq> [] \<or> - (2 ^ 53) \<le> capacityLeft s \<and> capacityLeft s < 2 ^ 53 \<longrightarrow>
      balance (snd (up s)) = balance s + 1
      \<and> (capacityLeft (snd (up s)) = capacityLeft s + 1
            \<and> queue (snd (up s)) = queue s
          \<or> capacityLeft (snd (up s)) = capacityLeft s
            \<and> queue s = hd (queue s) # queue (snd (up s))))
   \<and> (\<bar>C\<bar> + int (downs ops) + int (ups ops) \<le> 2 ^ 53 \<longrightarrow>
      balance (snd (exec (ops :: 'r op list) (create C))) = C - int (downs ops) + int (ups ops))"
proof -
  have "balance (snd (exec ops (create C))) = C - int (downs ops) + int (ups ops)"
    if "\<bar>C\<bar> + int (downs ops) + int (ups ops) \<le> 2 ^ 53"
  proof -
    from that calls_length [of ops]
    have "\<bar>capacityLeft (create C :: 'r semaphore)\<bar> + int (length ops) \<le> 2 ^ 53"
      by (simp add: create_def)
    then show ?thesis
      by (simp add: exec_balance) (simp add: balance_def create_def)
  qed
  moreover have "balance (snd (down r s)) = balance s - 1
      \<and> (capacityLeft (snd (down r s)) = capacityLeft s - 1
            \<and> queue (snd (down r s)) = queue s
          \<or> capacityLeft (snd (down r s)) = capacityLeft s
            \<and> queue (snd (down r s)) = queue s @ [r])"
    if "capacityLeft s \<le> 2 ^ 53"
    using that by (simp add: balance_def down_def decrement_exact)
  moreover have "balance (snd (up s)) = balance s + 1
      \<and> (capacityLeft (snd (up s)) = capacityLeft s + 1
            \<and> queue (snd (up s)) = queue s
          \<or> capacityLeft (snd (up s)) = capacityLeft s
            \<and> queue s = hd (queue s) # queue (snd (up s)))"
    if "queue s \<noteq> [] \<or> - (2 ^ 53) \<le> capacityLeft s \<and> capacityLeft s < 2 ^ 53"
    using that by (auto simp: balance_def up_def increment_exact split: list.split)
  ultimately show ?thesis by blast
qed

theorem conservation_witness:
  "capacityLeft (create 1 :: nat semaphore) \<le> 2 ^ 53
   \<and> balance (snd (down (0::nat) (create 1))) = balance (create 1 :: nat semaphore) - 1
   \<and> - (2 ^ 53) \<le> capacityLeft (create 1 :: nat semaphore)
   \<and> capacityLeft (create 1 :: nat semaphore) < 2 ^ 53
   \<and> balance (snd (up (create 1 :: nat semaphore))) = balance (create 1 :: nat semaphore) + 1
   \<and> \<bar>1::int\<bar> + int (downs [Down (1::nat), Down 2, Up, Down 3, Down 4])
        + int (ups [Down (1::nat), Down 2, Up, Down 3, Down 4]) \<le> 2 ^ 53
   \<and> balance (snd (exec [Down (1::nat), Down 2, Up, Down 3, Down 4] (create 1))) = 1 - 4 + 1
   \<and> capacityLeft (snd (exec [Down (1::nat), Down 2, Up, Down 3, Down 4] (create 1))) = 0
   \<and> queue (snd (exec [Down (1::nat), Down 2, Up, Down 3, Down 4] (create 1))) = [3, 4]"
  using conservation [of "create 1" "0::nat" 1 "[Down (1::nat), Down 2, Up, Down 3, Down 4]"]
  by (simp add: create_def down_def up_def increment_exact decrement_exact)

section \<open>Hand-off below zero\<close>

text \<open>
  C10. Whenever the queue is non-empty, one \<^verbatim>\<open>up\<close> call invokes the front
  continuation and leaves \<open>capacityLeft\<close> as it is, whatever its value, negative
  included: the release is not added to the counter. In particular a task queued by
  \<^verbatim>\<open>down\<close> on a semaphore constructed with capacity \<open>-n\<close>, \<open>n > 0\<close>, is woken by the
  first \<^verbatim>\<open>up\<close>, and the counter is still \<open>-n\<close> afterwards.
\<close>

theorem handoff_below_zero:
  "queue s \<noteq> [] \<Longrightarrow>
   fst (up s) = Some (hd (queue s))
   \<and> capacityLeft (snd (up s)) = capacityLeft s
   \<and> queue (snd (up s)) = tl (queue s)
   \<and> (0 < n \<longrightarrow>
        exec [Down r, Up] (create (- int n))
          = ([DownOut (Pending r), UpOut (Some r)], \<lparr>capacityLeft = - int n, queue = []\<rparr>))"
  by (auto simp: up_def down_def create_def split: list.split)

theorem handoff_below_zero_witness:
  "queue \<lparr>capacityLeft = - 2, queue = [4::nat, 5]\<rparr> \<noteq> []
   \<and> fst (up \<lparr>capacityLeft = - 2, queue = [4::nat, 5]\<rparr>) = Some 4
   \<and> capacityLeft (snd (up \<lparr>capacityLeft = - 2, queue = [4::nat, 5]\<rparr>)) = - 2
   \<and> queue (snd (up \<lparr>capacityLeft = - 2, queue = [4::nat, 5]\<rparr>)) = [5]
   \<and> (0::nat) < 2
   \<and> exec [Down (7::nat), Up] (create (- 2))
       = ([DownOut (Pending 7), UpOut (Some 7)], \<lparr>capacityLeft = - 2, queue = []\<rparr>)"
proof -
  have q: "queue \<lparr>capacityLeft = - 2, queue = [4::nat, 5]\<rparr> \<noteq> []" by simp
  show ?thesis
    using q handoff_below_zero [OF q, of 2 7] by simp
qed

end
